theory Spec2Isabelle
  imports Complex_Main
begin

section \<open>Python values, exceptions and the environment of async\_engine.py\<close>

text \<open>
  The values that \<^verbatim>\<open>response.json()\<close> can return and that the engine puts into its
  result dictionaries. A dictionary is the list of its items in insertion order (a Python
  dict holds every key once); a float is kept as mantissa and exponent, the engine never
  computes with one.
\<close>

datatype pyval =
    PNone
  | PBool bool
  | PInt int
  | PFloat int int
  | PStr string
  | PList "pyval list"
  | PDict "(string \<times> pyval) list"

text \<open>
  An exception value: the name of its class and what \<^verbatim>\<open>str(e)\<close> gives. The values of
  this type are the instances of Python's class \<^verbatim>\<open>Exception\<close>, the class that the
  handler of \<^verbatim>\<open>execute_task\<close> names (aiohttp's client errors, the timeout error, the
  JSON decoder's and \<^verbatim>\<open>len\<close>'s errors). The system-exiting signals outside that class
  (interpreter exit, keyboard interrupt, task cancellation) are not modelled.
\<close>

datatype exn = Exn (exn_class: string) (exn_str: string)

text \<open>What a call can do: come back with a value, or raise.\<close>

type_synonym 'a raising = "exn + 'a"

text \<open>
  The response object of \<^verbatim>\<open>session.get\<close>: its \<^verbatim>\<open>status\<close>, and what awaiting its
  \<^verbatim>\<open>json()\<close> does (the decoded body, or the exception of the read or of the decoder).
\<close>

record response =
  status :: int
  json :: "pyval raising"

text \<open>
  Entering \<^verbatim>\<open>session.get(url, timeout=15)\<close> either raises (connection error, the
  15 second timeout) or binds a response. A session is what the network answers to a GET.
\<close>

type_synonym session = "string \<Rightarrow> response raising"

text \<open>
  The two readings of \<^verbatim>\<open>datetime.now()\<close> that a successful task takes, as the code
  renders them: \<^verbatim>\<open>isoformat()\<close> in \<^verbatim>\<open>_process_logic\<close>, then
  \<^verbatim>\<open>strftime("%Y-%m-%d %H:%M:%S")\<close> in \<^verbatim>\<open>execute_task\<close>.
\<close>

record clock =
  now_isoformat :: string
  now_strftime :: string

text \<open>
  What a task does that another task or an observer can see: taking and giving back the
  slot of the semaphore, the two awaits on the network, and the error line of the logger.
\<close>

datatype event = Acquire | Release | Request string | ReadBody | LogError string

section \<open>Built-ins\<close>

text \<open>\<^verbatim>\<open>len\<close>: defined on strings, lists and dicts, a TypeError on everything else.\<close>

definition no_len :: "string \<Rightarrow> exn" where
  "no_len ty = Exn ''TypeError'' (''object of type '' @ [CHR 0x27] @ ty @ [CHR 0x27] @ '' has no len()'')"

fun py_len :: "pyval \<Rightarrow> nat raising" where
  "py_len (PStr s) = Inr (length s)"
| "py_len (PList xs) = Inr (length xs)"
| "py_len (PDict kvs) = Inr (length kvs)"
| "py_len PNone = Inl (no_len ''NoneType'')"
| "py_len (PBool b) = Inl (no_len ''bool'')"
| "py_len (PInt i) = Inl (no_len ''int'')"
| "py_len (PFloat m e) = Inl (no_len ''float'')"

text \<open>\<^verbatim>\<open>str\<close> of an integer, as the f-string \<^verbatim>\<open>f"HTTP_{status_code}"\<close> renders it.\<close>

definition digit_char :: "nat \<Rightarrow> char" where
  "digit_char d = ''0123456789'' ! d"

fun str_nat :: "nat \<Rightarrow> string" where
  "str_nat n = (if n < 10 then [digit_char n] else str_nat (n div 10) @ [digit_char (n mod 10)])"

definition str_int :: "int \<Rightarrow> string" where
  "str_int i = (if i < 0 then CHR ''-'' # str_nat (nat (- i)) else str_nat (nat i))"

text \<open>\<^verbatim>\<open>d.get(key)\<close> on a result: the value under the key, if the key is present.\<close>

fun field :: "pyval \<Rightarrow> string \<Rightarrow> pyval option" where
  "field (PDict kvs) k = map_of kvs k"
| "field v k = None"

section \<open>DataStreamEngine\<close>

subsection \<open>\_process\_logic\<close>

definition process_logic :: "pyval \<Rightarrow> clock \<Rightarrow> pyval raising" where
  "process_logic data clk =
     (case py_len data of
        Inl e \<Rightarrow> Inl e
      | Inr n \<Rightarrow> Inr (PDict
          [(''origin_count'', PInt (int n)),
           (''engine_tag'', PStr ''STF-V1-PRO''),
           (''processed_at'', PStr (now_isoformat clk)),
           (''cleaned'', PBool True)]))"

subsection \<open>execute\_task\<close>

text \<open>
  The block under \<^verbatim>\<open>try\<close>: the request, the test of the status code, the decoding and
  the transformation. It gives the events it performed and either the dictionary it
  returns or the exception that leaves it.
\<close>

definition try_block :: "session \<Rightarrow> clock \<Rightarrow> string \<Rightarrow> event list \<times> pyval raising" where
  "try_block sess clk url =
     (case sess url of
        Inl e \<Rightarrow> ([Request url], Inl e)
      | Inr resp \<Rightarrow>
          if status resp = 200 then
            (case json resp of
               Inl e \<Rightarrow> ([Request url, ReadBody], Inl e)
             | Inr data \<Rightarrow>
                 (case process_logic data clk of
                    Inl e \<Rightarrow> ([Request url, ReadBody], Inl e)
                  | Inr processed_payload \<Rightarrow>
                      ([Request url, ReadBody],
                       Inr (PDict
                         [(''status'', PStr ''SUCCESS''),
                          (''url'', PStr url),
                          (''payload'', processed_payload),
                          (''timestamp'', PStr (now_strftime clk))]))))
          else
            ([Request url],
             Inr (PDict [(''status'', PStr (''HTTP_'' @ str_int (status resp))), (''url'', PStr url)])))"

text \<open>
  \<^verbatim>\<open>except Exception as e\<close>: the error line of the logger, then the FAILED dictionary.
\<close>

definition except_Exception :: "string \<Rightarrow> event list \<times> pyval raising \<Rightarrow> event list \<times> pyval raising" where
  "except_Exception url r =
     (case snd r of
        Inr v \<Rightarrow> r
      | Inl e \<Rightarrow>
          (fst r @ [LogError (''Task execution failed: '' @ exn_str e)],
           Inr (PDict [(''status'', PStr ''FAILED''), (''url'', PStr url), (''error'', PStr (exn_str e))])))"

text \<open>
  \<^verbatim>\<open>async with self.semaphore\<close>: the acquire is awaited first, outside the \<^verbatim>\<open>try\<close>; when
  it raises, the body is not entered and the exception leaves the coroutine. Otherwise the
  slot is taken before the body and given back when the body is left, by a return or by an
  exception. The first argument is what awaiting the acquire does for this task.
\<close>

definition with_semaphore :: "unit raising \<Rightarrow> event list \<times> 'a raising \<Rightarrow> event list \<times> 'a raising" where
  "with_semaphore acq r =
     (case acq of
        Inl e \<Rightarrow> ([], Inl e)
      | Inr u \<Rightarrow> (Acquire # fst r @ [Release], snd r))"

definition execute_task ::
  "unit raising \<Rightarrow> session \<Rightarrow> clock \<Rightarrow> string \<Rightarrow> event list \<times> pyval raising" where
  "execute_task acq sess clk url =
     with_semaphore acq (except_Exception url (try_block sess clk url))"

lemma execute_task_cases:
  "execute_task (Inr u) sess clk url =
     (case sess url of
        Inl e \<Rightarrow>
          ([Acquire, Request url, LogError (''Task execution failed: '' @ exn_str e), Release],
           Inr (PDict [(''status'', PStr ''FAILED''), (''url'', PStr url), (''error'', PStr (exn_str e))]))
      | Inr resp \<Rightarrow>
          if status resp = 200 then
            (case json resp of
               Inl e \<Rightarrow>
                 ([Acquire, Request url, ReadBody, LogError (''Task execution failed: '' @ exn_str e), Release],
                  Inr (PDict [(''status'', PStr ''FAILED''), (''url'', PStr url), (''error'', PStr (exn_str e))]))
             | Inr data \<Rightarrow>
                 (case process_logic data clk of
                    Inl e \<Rightarrow>
                      ([Acquire, Request url, ReadBody, LogError (''Task execution failed: '' @ exn_str e), Release],
                       Inr (PDict [(''status'', PStr ''FAILED''), (''url'', PStr url), (''error'', PStr (exn_str e))]))
                  | Inr p \<Rightarrow>
                      ([Acquire, Request url, ReadBody, Release],
                       Inr (PDict
                         [(''status'', PStr ''SUCCESS''),
                          (''url'', PStr url),
                          (''payload'', p),
                          (''timestamp'', PStr (now_strftime clk))]))))
          else
            ([Acquire, Request url, Release],
             Inr (PDict [(''status'', PStr (''HTTP_'' @ str_int (status resp))), (''url'', PStr url)])))"
  by (simp add: execute_task_def with_semaphore_def except_Exception_def try_block_def
      split: sum.splits)

lemma execute_task_refused: "execute_task (Inl e) sess clk url = ([], Inl e)"
  by (simp add: execute_task_def with_semaphore_def)

subsection \<open>The constructor\<close>

text \<open>
  \<^verbatim>\<open>asyncio.Semaphore(value)\<close> raises ValueError for a value below 0 and otherwise starts
  its counter at the value, bound to no event loop. \<^verbatim>\<open>__init__\<close> hands its argument over
  as it is; the default of the argument is 10. The second argument is the reading of
  \<^verbatim>\<open>time.time()\<close>.

  An engine is the counter of its semaphore, the event loop the semaphore is bound to, if
  any, and the start time. The semaphore binds itself to the running loop the first time
  a task has to wait for it, and stays bound: an engine that has served a run in which a
  task waited carries the loop of that run.
\<close>

definition Semaphore :: "int \<Rightarrow> nat raising" where
  "Semaphore v =
     (if v < 0 then Inl (Exn ''ValueError'' ''Semaphore initial value must be >= 0'')
      else Inr (nat v))"

record engine =
  semaphore :: nat
  semaphore_loop :: "nat option"
  start_time :: real

definition DataStreamEngine :: "int option \<Rightarrow> real \<Rightarrow> engine raising" where
  "DataStreamEngine concurrency_limit t =
     (case Semaphore (case concurrency_limit of None \<Rightarrow> 10 | Some c \<Rightarrow> c) of
        Inl e \<Rightarrow> Inl e
      | Inr v \<Rightarrow> Inr \<lparr>semaphore = v, semaphore_loop = None, start_time = t\<rparr>)"

section \<open>The event loop under run\_pipeline\<close>

text \<open>
  \<^verbatim>\<open>run_pipeline\<close> makes one \<^verbatim>\<open>execute_task\<close> coroutine per url, in the order of the
  list, and awaits \<^verbatim>\<open>asyncio.gather\<close> of them. The loop runs the coroutines
  interleaved: a task is the events it has still to perform, whether it holds a slot of
  the semaphore, and what it gives when its events are done. The network and the clock of
  the i-th task are \<open>net i\<close> and \<open>clk i\<close>; \<open>loop\<close> names the event loop of the run.
\<close>

record task =
  todo :: "event list"
  holding :: bool
  outcome :: "pyval raising"

record sched =
  sem_value :: nat
  sem_loop :: "nat option"
  loop :: nat
  tasks :: "task list"

definition spawn :: "session \<Rightarrow> clock \<Rightarrow> string \<Rightarrow> task" where
  "spawn sess clk url =
     \<lparr>todo = fst (execute_task (Inr ()) sess clk url), holding = False,
      outcome = snd (execute_task (Inr ()) sess clk url)\<rparr>"

definition start ::
  "engine \<Rightarrow> nat \<Rightarrow> (nat \<Rightarrow> session) \<Rightarrow> (nat \<Rightarrow> clock) \<Rightarrow> string list \<Rightarrow> sched" where
  "start eng running net clk target_urls =
     \<lparr>sem_value = semaphore eng, sem_loop = semaphore_loop eng, loop = running,
      tasks = map (\<lambda>(i, url). spawn (net i) (clk i) url) (enumerate 0 target_urls)\<rparr>"

text \<open>
  \<^verbatim>\<open>Semaphore.acquire\<close>: with the counter above 0 it takes the slot at once. With the
  counter at 0 the task has to wait, and for the future it waits on the semaphore asks for
  its loop: bound to another loop than the running one, it raises RuntimeError (the
  message starts with the \<^verbatim>\<open>repr\<close> of the semaphore, left out here).
\<close>

definition foreign :: "sched \<Rightarrow> bool" where
  "foreign s = (case sem_loop s of None \<Rightarrow> False | Some l \<Rightarrow> l \<noteq> loop s)"

definition bound_error :: exn where
  "bound_error = Exn ''RuntimeError'' ''Semaphore is bound to a different event loop''"

text \<open>
  A task can take its next step unless it is done, or its next step is the acquire, the
  counter of the semaphore is 0 and the semaphore lets it wait.
\<close>

definition enabled :: "sched \<Rightarrow> nat \<Rightarrow> bool" where
  "enabled s i =
     (i < length (tasks s) \<and>
      (case todo (tasks s ! i) of
         [] \<Rightarrow> False
       | Acquire # es \<Rightarrow> 0 < sem_value s \<or> foreign s
       | e # es \<Rightarrow> True))"

text \<open>
  One step of task \<open>i\<close>. A refused acquire ends the task as \<open>execute_task (Inl bound_error)\<close>
  ends: no event performed, the exception its outcome.
\<close>

definition advance :: "sched \<Rightarrow> nat \<Rightarrow> sched" where
  "advance s i =
     (case todo (tasks s ! i) of
        [] \<Rightarrow> s
      | Acquire # es \<Rightarrow>
          if 0 < sem_value s then
            s\<lparr>sem_value := sem_value s - 1,
              tasks := (tasks s)[i := (tasks s ! i)\<lparr>todo := es, holding := True\<rparr>]\<rparr>
          else if foreign s then
            s\<lparr>tasks := (tasks s)[i := (tasks s ! i)\<lparr>todo := [], outcome := Inl bound_error\<rparr>]\<rparr>
          else s
      | Release # es \<Rightarrow>
          s\<lparr>sem_value := sem_value s + 1,
            tasks := (tasks s)[i := (tasks s ! i)\<lparr>todo := es, holding := False\<rparr>]\<rparr>
      | e # es \<Rightarrow>
          s\<lparr>tasks := (tasks s)[i := (tasks s ! i)\<lparr>todo := es\<rparr>]\<rparr>)"

text \<open>The tasks past the acquire and not yet past the release.\<close>

definition holders :: "sched \<Rightarrow> nat" where
  "holders s = length (filter holding (tasks s))"

definition finished :: "sched \<Rightarrow> bool" where
  "finished s = list_all (\<lambda>t. todo t = []) (tasks s)"

definition enabled_tasks :: "sched \<Rightarrow> nat list" where
  "enabled_tasks s = filter (enabled s) [0..<length (tasks s)]"

text \<open>
  Which of the enabled tasks goes next is up to the timing of the network: a policy
  \<open>pick\<close> stands for it, any function of the state.
\<close>

definition next_task :: "(sched \<Rightarrow> nat) \<Rightarrow> sched \<Rightarrow> nat" where
  "next_task pick s = enabled_tasks s ! (pick s mod length (enabled_tasks s))"

text \<open>Every state that some interleaving reaches.\<close>

inductive reach :: "sched \<Rightarrow> sched \<Rightarrow> bool" for s0 :: sched where
  reach_start: "reach s0 s0"
| reach_step: "reach s0 s \<Longrightarrow> enabled s i \<Longrightarrow> reach s0 (advance s i)"

text \<open>
  \<^verbatim>\<open>gather\<close> hands the first exception of a child on to its awaiter, and otherwise, when
  all children are done, the list of their results in the order of the children.
\<close>

fun first_raised :: "task list \<Rightarrow> exn option" where
  "first_raised [] = None"
| "first_raised (t # ts) =
     (case (todo t, outcome t) of
        ([], Inl e) \<Rightarrow> Some e
      | _ \<Rightarrow> first_raised ts)"

fun gather :: "task list \<Rightarrow> pyval list raising" where
  "gather [] = Inr []"
| "gather (t # ts) =
     (case outcome t of
        Inl e \<Rightarrow> Inl e
      | Inr v \<Rightarrow> (case gather ts of Inl e \<Rightarrow> Inl e | Inr vs \<Rightarrow> Inr (v # vs)))"

text \<open>How an awaited coroutine ends: with a value, with an exception, or never.\<close>

datatype 'a ending = Returns 'a | Raises exn | Hangs

definition work :: "sched \<Rightarrow> nat" where
  "work s = sum_list (map (\<lambda>t. length (todo t)) (tasks s))"

lemma sum_list_map_update_less:
  "i < length xs \<Longrightarrow> f y < f (xs ! i) \<Longrightarrow>
   sum_list (map f (xs[i := y])) < (sum_list (map f xs) :: nat)"
proof (induction xs arbitrary: i)
  case Nil
  then show ?case by simp
next
  case (Cons x xs)
  then show ?case by (cases i) auto
qed

lemma advance_work: "enabled s i \<Longrightarrow> work (advance s i) < work s"
proof -
  assume en: "enabled s i"
  then have i: "i < length (tasks s)" by (simp add: enabled_def)
  from en obtain e es where t: "todo (tasks s ! i) = e # es"
    by (auto simp: enabled_def split: list.splits)
  have "\<exists>t'. tasks (advance s i) = (tasks s)[i := t'] \<and> length (todo t') < length (todo (tasks s ! i))"
    using en by (cases e) (auto simp: advance_def enabled_def t)
  then obtain t' where a: "tasks (advance s i) = (tasks s)[i := t']"
    and l: "length (todo t') < length (todo (tasks s ! i))" by blast
  show ?thesis
    unfolding work_def a by (rule sum_list_map_update_less [OF i l])
qed

lemma next_task_enabled: "enabled_tasks s \<noteq> [] \<Longrightarrow> enabled s (next_task pick s)"
proof -
  assume "enabled_tasks s \<noteq> []"
  then have "next_task pick s \<in> set (enabled_tasks s)"
    by (simp add: next_task_def)
  then show ?thesis by (simp add: enabled_tasks_def)
qed

function run :: "(sched \<Rightarrow> nat) \<Rightarrow> sched \<Rightarrow> pyval list ending" where
  "run pick s =
     (case first_raised (tasks s) of
        Some e \<Rightarrow> Raises e
      | None \<Rightarrow>
          if finished s then
            (case gather (tasks s) of Inl e \<Rightarrow> Raises e | Inr results \<Rightarrow> Returns results)
          else if enabled_tasks s = [] then Hangs
          else run pick (advance s (next_task pick s)))"
  by pat_completeness auto
termination
  by (relation "measure (\<lambda>(pick, s). work s)") (auto intro: advance_work next_task_enabled)

declare run.simps [simp del]

definition run_pipeline ::
  "(sched \<Rightarrow> nat) \<Rightarrow> engine \<Rightarrow> nat \<Rightarrow> (nat \<Rightarrow> session) \<Rightarrow> (nat \<Rightarrow> clock) \<Rightarrow> string list \<Rightarrow>
   pyval list ending" where
  "run_pipeline pick eng running net clk target_urls =
     run pick (start eng running net clk target_urls)"


section \<open>The scenario of the specification\<close>

text \<open>
  Three targets and a limit of 2: the first answers 200 with the body
  \<^verbatim>\<open>{"x":1,"y":2}\<close>, the second answers 404, the third never answers, so that the total
  timeout of the request raises \<^verbatim>\<open>asyncio.TimeoutError()\<close>, whose \<^verbatim>\<open>str\<close> is empty.
\<close>

definition ok_response :: response where
  "ok_response = \<lparr>status = 200, json = Inr (PDict [(''x'', PInt 1), (''y'', PInt 2)])\<rparr>"

definition missing_response :: response where
  "missing_response = \<lparr>status = 404, json = Inr (PDict [])\<rparr>"

definition example_net :: "nat \<Rightarrow> session" where
  "example_net i url =
     (if i = 0 then Inr ok_response
      else if i = 1 then Inr missing_response
      else Inl (Exn ''TimeoutError'' []))"

definition example_clk :: "nat \<Rightarrow> clock" where
  "example_clk i = \<lparr>now_isoformat = ''2026-01-01T00:00:15.000250'', now_strftime = ''2026-01-01 00:00:15''\<rparr>"

definition example_urls :: "string list" where
  "example_urls = [''https://ok.example/a'', ''https://missing.example/b'', ''https://slow.example/c'']"

definition example_engine :: engine where
  "example_engine = \<lparr>semaphore = 2, semaphore_loop = None, start_time = 0\<rparr>"

text \<open>The engine that the constructor builds for the limit 0.\<close>

definition zero_engine :: engine where
  "zero_engine = \<lparr>semaphore = 0, semaphore_loop = None, start_time = 0\<rparr>"

text \<open>
  The engine of the scenario after a run on the event loop 3 in which a task waited: the
  counter is back at 2 and the semaphore is bound to that loop.
\<close>

definition reused_engine :: engine where
  "reused_engine = \<lparr>semaphore = 2, semaphore_loop = Some 3, start_time = 0\<rparr>"

text \<open>A policy that always lets the last of the enabled tasks go.\<close>

definition last_enabled :: "sched \<Rightarrow> nat" where
  "last_enabled s = length (enabled_tasks s) - 1"

text \<open>
  The policy of a loop that has just begun: it lets the tasks that stand before their
  acquire go first, in the order of the list, as the loop does when it starts them.
\<close>

definition at_acquire :: "sched \<Rightarrow> nat \<Rightarrow> bool" where
  "at_acquire s i = (case todo (tasks s ! i) of Acquire # es \<Rightarrow> True | _ \<Rightarrow> False)"

definition arrival_order :: "sched \<Rightarrow> nat" where
  "arrival_order s =
     (case filter (\<lambda>k. at_acquire s (enabled_tasks s ! k)) [0..<length (enabled_tasks s)] of
        [] \<Rightarrow> 0
      | k # ks \<Rightarrow> k)"

text \<open>A session whose answer is 200 with the body \<^verbatim>\<open>5\<close>, a JSON document that is a number.\<close>

definition scalar_session :: session where
  "scalar_session url = Inr \<lparr>status = 200, json = Inr (PInt 5)\<rparr>"

section \<open>The invariant of the semaphore\<close>

definition gate_events :: "event list \<Rightarrow> event list" where
  "gate_events es = filter (\<lambda>e. e = Acquire \<or> e = Release) es"

text \<open>
  A task that holds a slot has its release ahead and no acquire; a task that holds none
  has either both ahead, in this order, or neither.
\<close>

definition task_ok :: "task \<Rightarrow> bool" where
  "task_ok t =
     (if holding t then gate_events (todo t) = [Release]
      else gate_events (todo t) = [] \<or> gate_events (todo t) = [Acquire, Release])"

definition gate_inv :: "nat \<Rightarrow> sched \<Rightarrow> bool" where
  "gate_inv c s = (sem_value s + holders s = c \<and> (\<forall>t \<in> set (tasks s). task_ok t))"

text \<open>The results of the tasks, in the order of the targets.\<close>

definition expected_results :: "(nat \<Rightarrow> session) \<Rightarrow> (nat \<Rightarrow> clock) \<Rightarrow> string list \<Rightarrow> pyval list" where
  "expected_results net clk urls =
     map (\<lambda>(i, url). projr (snd (execute_task (Inr ()) (net i) (clk i) url))) (enumerate 0 urls)"

lemma execute_task_gate:
  "gate_events (fst (execute_task (Inr u) sess clk url)) = [Acquire, Release]"
  by (simp add: execute_task_cases gate_events_def split: sum.splits)

lemma execute_task_returns: "\<exists>v. snd (execute_task (Inr u) sess clk url) = Inr v"
  by (simp add: execute_task_cases split: sum.splits)

lemma execute_task_url:
  "snd (execute_task (Inr u) sess clk url) = Inr v \<Longrightarrow> field v ''url'' = Some (PStr url)"
  by (auto simp: execute_task_cases split: sum.splits if_splits)

lemma execute_task_first: "\<exists>es. fst (execute_task (Inr u) sess clk url) = Acquire # es"
  by (simp add: execute_task_cases split: sum.splits)

lemma spawn_ok: "task_ok (spawn sess clk url)"
  by (simp add: task_ok_def spawn_def execute_task_gate)

lemma holders_start: "holders (start eng running net clk urls) = 0"
  by (auto simp: holders_def start_def spawn_def filter_empty_conv)

lemma gate_inv_start: "gate_inv (semaphore eng) (start eng running net clk urls)"
proof -
  have "\<forall>t \<in> set (tasks (start eng running net clk urls)). task_ok t"
    by (auto simp: start_def spawn_ok)
  moreover have "sem_value (start eng running net clk urls) = semaphore eng"
    by (simp add: start_def)
  ultimately show ?thesis by (simp add: gate_inv_def holders_start)
qed

lemma length_filter_update:
  "i < length xs \<Longrightarrow>
   length (filter P (xs[i := y])) + (if P (xs ! i) then 1 else 0) =
   length (filter P xs) + (if P y then 1 else 0)"
proof (induction xs arbitrary: i)
  case Nil
  then show ?case by simp
next
  case (Cons x xs)
  then show ?case by (cases i) auto
qed

lemma advance_plain:
  "todo (tasks s ! i) = e # es \<Longrightarrow> e \<noteq> Acquire \<Longrightarrow> e \<noteq> Release \<Longrightarrow>
   advance s i = s\<lparr>tasks := (tasks s)[i := (tasks s ! i)\<lparr>todo := es\<rparr>]\<rparr>"
  by (cases e) (simp_all add: advance_def)

lemma tasks_ok_update:
  "\<forall>t \<in> set ts. task_ok t \<Longrightarrow> task_ok t' \<Longrightarrow> \<forall>t \<in> set (ts[i := t']). task_ok t"
  by (auto dest!: set_update_subset_insert [THEN subsetD])

lemma gate_inv_advance:
  assumes inv: "gate_inv c s" and en: "enabled s i"
  shows "gate_inv c (advance s i)"
proof -
  from en have i: "i < length (tasks s)" by (simp add: enabled_def)
  from en obtain e es where t: "todo (tasks s ! i) = e # es"
    by (auto simp: enabled_def split: list.splits)
  from inv i have ok: "task_ok (tasks s ! i)" by (simp add: gate_inv_def)
  from inv have total: "sem_value s + holders s = c"
    and all_ok: "\<forall>t \<in> set (tasks s). task_ok t" by (simp_all add: gate_inv_def)
  consider (acq) "e = Acquire" "0 < sem_value s"
    | (refused) "e = Acquire" "sem_value s = 0"
    | (rel) "e = Release"
    | (plain) "e \<noteq> Acquire" "e \<noteq> Release"
    by auto
  then show ?thesis
  proof cases
    case acq
    with ok t have nh: "\<not> holding (tasks s ! i)" and r: "gate_events es = [Release]"
      by (auto simp: task_ok_def gate_events_def split: if_splits)
    let ?t' = "(tasks s ! i)\<lparr>todo := es, holding := True\<rparr>"
    have adv: "advance s i = s\<lparr>sem_value := sem_value s - 1, tasks := (tasks s)[i := ?t']\<rparr>"
      using acq by (simp add: advance_def t)
    have "holders (advance s i) = holders s + 1"
      using length_filter_update [OF i, of holding ?t'] nh by (simp add: adv holders_def)
    moreover have "task_ok ?t'" using r by (simp add: task_ok_def)
    then have "\<forall>t \<in> set (tasks (advance s i)). task_ok t"
      using tasks_ok_update [OF all_ok] by (simp add: adv)
    ultimately show ?thesis using total acq(2) by (simp add: gate_inv_def adv)
  next
    case refused
    with ok t have nh: "\<not> holding (tasks s ! i)"
      by (auto simp: task_ok_def gate_events_def split: if_splits)
    from en t refused have f: "foreign s" by (simp add: enabled_def)
    let ?t' = "(tasks s ! i)\<lparr>todo := [], outcome := Inl bound_error\<rparr>"
    have adv: "advance s i = s\<lparr>tasks := (tasks s)[i := ?t']\<rparr>"
      using refused f by (simp add: advance_def t)
    have "holders (advance s i) = holders s"
      using length_filter_update [OF i, of holding ?t'] nh by (simp add: adv holders_def)
    moreover have "task_ok ?t'" using nh by (simp add: task_ok_def gate_events_def)
    then have "\<forall>t \<in> set (tasks (advance s i)). task_ok t"
      using tasks_ok_update [OF all_ok] by (simp add: adv)
    ultimately show ?thesis using total by (simp add: gate_inv_def adv)
  next
    case rel
    with ok t have h: "holding (tasks s ! i)" and r: "gate_events es = []"
      by (auto simp: task_ok_def gate_events_def split: if_splits)
    let ?t' = "(tasks s ! i)\<lparr>todo := es, holding := False\<rparr>"
    have adv: "advance s i = s\<lparr>sem_value := sem_value s + 1, tasks := (tasks s)[i := ?t']\<rparr>"
      by (simp add: advance_def t rel)
    have "holders (advance s i) + 1 = holders s"
      using length_filter_update [OF i, of holding ?t'] h by (simp add: adv holders_def)
    moreover have "task_ok ?t'" using r by (simp add: task_ok_def)
    then have "\<forall>t \<in> set (tasks (advance s i)). task_ok t"
      using tasks_ok_update [OF all_ok] by (simp add: adv)
    ultimately show ?thesis using total by (simp add: gate_inv_def adv)
  next
    case plain
    let ?t' = "(tasks s ! i)\<lparr>todo := es\<rparr>"
    note adv = advance_plain [OF t plain]
    have "holders (advance s i) = holders s"
      using length_filter_update [OF i, of holding ?t'] by (simp add: adv holders_def)
    moreover have "task_ok ?t'"
      using ok t plain by (auto simp: task_ok_def gate_events_def split: if_splits)
    then have "\<forall>t \<in> set (tasks (advance s i)). task_ok t"
      using tasks_ok_update [OF all_ok] by (simp add: adv)
    ultimately show ?thesis using total by (simp add: gate_inv_def adv)
  qed
qed

lemma reach_gate_inv: "reach s0 s \<Longrightarrow> gate_inv c s0 \<Longrightarrow> gate_inv c s"
  by (induction rule: reach.induct) (auto intro: gate_inv_advance)

lemma reach_holders: "reach (start eng running net clk urls) s \<Longrightarrow> holders s \<le> semaphore eng"
proof -
  assume "reach (start eng running net clk urls) s"
  then have "gate_inv (semaphore eng) s"
    by (rule reach_gate_inv) (rule gate_inv_start)
  then show ?thesis by (simp add: gate_inv_def)
qed

section \<open>No deadlock, and what the pipeline returns\<close>

lemma holder_enabled:
  assumes "gate_inv c s" and "i < length (tasks s)" and "holding (tasks s ! i)"
  shows "enabled s i"
proof -
  from assms have "gate_events (todo (tasks s ! i)) = [Release]"
    by (auto simp: gate_inv_def task_ok_def)
  then show ?thesis using assms(2)
    by (cases "todo (tasks s ! i)")
      (auto simp: enabled_def gate_events_def split: event.splits if_splits)
qed

lemma progress:
  assumes inv: "gate_inv c s" and pos: "0 < c" and nf: "\<not> finished s"
  shows "enabled_tasks s \<noteq> []"
proof (cases "holders s = 0")
  case True
  with inv pos have free: "0 < sem_value s" by (simp add: gate_inv_def)
  from nf obtain i where i: "i < length (tasks s)" and t: "todo (tasks s ! i) \<noteq> []"
    by (auto simp: finished_def list_all_length)
  from t free i have "enabled s i"
    by (cases "todo (tasks s ! i)") (auto simp: enabled_def split: event.splits)
  with i have "i \<in> set (enabled_tasks s)" by (simp add: enabled_tasks_def)
  then show ?thesis by auto
next
  case False
  then obtain t where "t \<in> set (tasks s)" and "holding t"
    by (auto simp: holders_def filter_empty_conv)
  then obtain i where i: "i < length (tasks s)" and h: "holding (tasks s ! i)"
    by (auto simp: in_set_conv_nth)
  from holder_enabled [OF inv i h] i have "i \<in> set (enabled_tasks s)"
    by (simp add: enabled_tasks_def)
  then show ?thesis by auto
qed

text \<open>
  No acquire is refused when the semaphore is unbound or bound to the running loop, nor
  when there are no more tasks than slots: then a task before its acquire finds the
  counter above 0.
\<close>

lemma no_refusal:
  assumes inv: "gate_inv c s" and safe: "\<not> foreign s \<or> length (tasks s) \<le> c"
    and i: "i < length (tasks s)" and t: "todo (tasks s ! i) = Acquire # es"
  shows "0 < sem_value s \<or> \<not> foreign s"
proof (cases "foreign s")
  case False
  then show ?thesis by simp
next
  case True
  with safe have le: "length (tasks s) \<le> c" by simp
  from inv i have "task_ok (tasks s ! i)" by (simp add: gate_inv_def)
  with t have "\<not> holding (tasks s ! i)"
    by (auto simp: task_ok_def gate_events_def split: if_splits)
  with i have "holders s < length (tasks s)"
    unfolding holders_def by (intro length_filter_less) auto
  with le inv show ?thesis by (simp add: gate_inv_def)
qed

lemma advance_outcomes:
  assumes "i < length (tasks s)"
    and "\<And>es. todo (tasks s ! i) = Acquire # es \<Longrightarrow> 0 < sem_value s \<or> \<not> foreign s"
  shows "map outcome (tasks (advance s i)) = map outcome (tasks s)"
  using assms
  by (auto simp: advance_def map_update list_update_same_conv split: list.splits event.splits)

lemma advance_loops:
  "sem_loop (advance s i) = sem_loop s \<and> loop (advance s i) = loop s \<and>
   length (tasks (advance s i)) = length (tasks s)"
  by (simp add: advance_def split: list.splits event.splits)

lemma advance_frame:
  "foreign (advance s i) = foreign s \<and> length (tasks (advance s i)) = length (tasks s)"
  by (simp add: foreign_def advance_loops split: option.splits)

lemma first_raised_None: "map outcome ts = map Inr vs \<Longrightarrow> first_raised ts = None"
  by (induction ts arbitrary: vs) (auto split: list.splits)

lemma gather_Inr: "map outcome ts = map Inr vs \<Longrightarrow> gather ts = Inr vs"
  by (induction ts arbitrary: vs) auto

lemma run_returns:
  "gate_inv c s \<Longrightarrow> 0 < c \<Longrightarrow> \<not> foreign s \<or> length (tasks s) \<le> c \<Longrightarrow>
   map outcome (tasks s) = map Inr vs \<Longrightarrow> run pick s = Returns vs"
proof (induction pick s rule: run.induct)
  case (1 pick s)
  note none = first_raised_None [OF "1.prems"(4)]
  show ?case
  proof (cases "finished s")
    case True
    then show ?thesis
      by (subst run.simps) (simp add: none gather_Inr [OF "1.prems"(4)])
  next
    case False
    from progress [OF "1.prems"(1,2) False] have en: "enabled_tasks s \<noteq> []" .
    then have e: "enabled s (next_task pick s)" by (rule next_task_enabled)
    then have i: "next_task pick s < length (tasks s)" by (simp add: enabled_def)
    have keep: "map outcome (tasks (advance s (next_task pick s))) = map outcome (tasks s)"
      by (rule advance_outcomes [OF i]) (rule no_refusal [OF "1.prems"(1,3) i])
    have "run pick (advance s (next_task pick s)) = Returns vs"
      using "1.IH" [OF none False en] gate_inv_advance [OF "1.prems"(1) e] "1.prems"(2,3,4)
        keep advance_frame [of s "next_task pick s"] by simp
    then show ?thesis
      by (subst run.simps) (simp add: none False en)
  qed
qed

lemma run_empty: "tasks s = [] \<Longrightarrow> run pick s = Returns []"
  by (subst run.simps) (simp add: finished_def)

lemma start_outcomes:
  "map outcome (tasks (start eng running net clk urls)) = map Inr (expected_results net clk urls)"
proof -
  have "\<And>sess c u. Inr (projr (snd (execute_task (Inr ()) sess c u))) = snd (execute_task (Inr ()) sess c u)"
    using execute_task_returns by (metis sum.sel(2))
  then show ?thesis
    by (simp add: start_def expected_results_def spawn_def split_def)
qed

lemma run_pipeline_returns:
  assumes "0 < semaphore eng \<or> urls = []"
    and "semaphore_loop eng = None \<or> semaphore_loop eng = Some running \<or>
         length urls \<le> semaphore eng"
  shows "run_pipeline pick eng running net clk urls = Returns (expected_results net clk urls)"
proof (cases "urls = []")
  case True
  then show ?thesis
    by (simp add: run_pipeline_def run_empty start_def expected_results_def)
next
  case False
  with assms have pos: "0 < semaphore eng" by simp
  have safe: "\<not> foreign (start eng running net clk urls) \<or>
              length (tasks (start eng running net clk urls)) \<le> semaphore eng"
    using assms(2) by (auto simp: foreign_def start_def)
  show ?thesis
    unfolding run_pipeline_def
    by (rule run_returns [OF gate_inv_start pos safe start_outcomes])
qed

lemma expected_results_nth:
  "i < length urls \<Longrightarrow>
   snd (execute_task (Inr ()) (net i) (clk i) (urls ! i)) = Inr (expected_results net clk urls ! i)"
proof -
  assume "i < length urls"
  then have "expected_results net clk urls ! i =
             projr (snd (execute_task (Inr ()) (net i) (clk i) (urls ! i)))"
    by (simp add: expected_results_def nth_enumerate_eq)
  then show ?thesis using execute_task_returns [of "()" "net i" "clk i" "urls ! i"] by auto
qed

lemma expected_results_map:
  "map Inr (expected_results net clk urls) =
   map (\<lambda>(i, url). snd (execute_task (Inr ()) (net i) (clk i) url)) (enumerate 0 urls)"
proof -
  have "\<And>sess c u. Inr (projr (snd (execute_task (Inr ()) sess c u))) = snd (execute_task (Inr ()) sess c u)"
    using execute_task_returns by (metis sum.sel(2))
  then show ?thesis by (simp add: expected_results_def split_def)
qed

text \<open>With no slot and a semaphore that lets the tasks wait, nothing ever moves.\<close>

lemma first_raised_busy: "\<forall>t \<in> set ts. todo t \<noteq> [] \<Longrightarrow> first_raised ts = None"
  by (induction ts) (auto split: list.splits)

lemma run_pipeline_hangs:
  assumes "semaphore eng = 0" and "semaphore_loop eng = None \<or> semaphore_loop eng = Some running"
    and "urls \<noteq> []"
  shows "run_pipeline pick eng running net clk urls = Hangs"
proof -
  let ?s = "start eng running net clk urls"
  have acq: "\<forall>t \<in> set (tasks ?s). \<exists>es. todo t = Acquire # es"
    using execute_task_first by (auto simp: start_def spawn_def)
  then have busy: "\<forall>t \<in> set (tasks ?s). todo t \<noteq> []" by auto
  have "length (tasks ?s) = length urls" by (simp add: start_def)
  with assms(3) have ne: "tasks ?s \<noteq> []" by auto
  have nf: "\<not> finished ?s"
    using busy ne by (cases "tasks ?s") (auto simp: finished_def)
  have nofor: "\<not> foreign ?s" using assms(2) by (auto simp: foreign_def start_def)
  have zero: "sem_value ?s = 0" using assms(1) by (simp add: start_def)
  have "\<And>i. \<not> enabled ?s i"
  proof -
    fix i
    show "\<not> enabled ?s i"
    proof (cases "i < length (tasks ?s)")
      case True
      with acq obtain es where "todo (tasks ?s ! i) = Acquire # es" by (meson nth_mem)
      then show ?thesis using nofor zero by (simp add: enabled_def)
    next
      case False
      then show ?thesis by (simp add: enabled_def)
    qed
  qed
  then have none: "enabled_tasks ?s = []" by (simp add: enabled_tasks_def)
  show ?thesis
    unfolding run_pipeline_def
    by (subst run.simps) (simp add: first_raised_busy [OF busy] nf none)
qed


section \<open>The claims\<close>

text \<open>
  C3, amended. A 200 answer whose decoded body has a length (a dict, a list or a string)
  gives SUCCESS, a payload whose \<^verbatim>\<open>origin_count\<close> is that length, and the timestamp; a 200
  answer whose decoded body has none (a number, a boolean, null) gives FAILED and no
  payload; an answer with any other status code gives \<^verbatim>\<open>HTTP_<code>\<close> with that code, no
  payload and no timestamp. A task that gets an answer has been admitted by the semaphore.
\<close>

theorem execute_task_status_classification:
  "(sess url = Inr resp \<and> status resp = 200 \<and> json resp = Inr data \<and> py_len data = Inr n \<longrightarrow>
      (\<exists>v p. snd (execute_task (Inr ()) sess clk url) = Inr v \<and>
         field v ''status'' = Some (PStr ''SUCCESS'') \<and>
         field v ''payload'' = Some p \<and>
         field p ''origin_count'' = Some (PInt (int n)) \<and>
         field v ''timestamp'' = Some (PStr (now_strftime clk)))) \<and>
   (sess url = Inr resp \<and> status resp = 200 \<and> json resp = Inr data \<and> py_len data = Inl e \<longrightarrow>
      (\<exists>v. snd (execute_task (Inr ()) sess clk url) = Inr v \<and>
         field v ''status'' = Some (PStr ''FAILED'') \<and>
         field v ''payload'' = None)) \<and>
   (sess url = Inr resp \<and> status resp \<noteq> 200 \<longrightarrow>
      (\<exists>v. snd (execute_task (Inr ()) sess clk url) = Inr v \<and>
         field v ''status'' = Some (PStr (''HTTP_'' @ str_int (status resp))) \<and>
         field v ''payload'' = None \<and>
         field v ''timestamp'' = None))"
  by (simp add: execute_task_cases process_logic_def)

text \<open>The three cases: the body \<^verbatim>\<open>{"x":1,"y":2}\<close>, the body \<^verbatim>\<open>5\<close>, and the 404.\<close>

theorem execute_task_status_classification_witness:
  "(\<exists>v p. snd (execute_task (Inr ()) (example_net 0) (example_clk 0) ''https://ok.example/a'') = Inr v \<and>
         field v ''status'' = Some (PStr ''SUCCESS'') \<and>
         field v ''payload'' = Some p \<and>
         field p ''origin_count'' = Some (PInt 2) \<and>
         field v ''timestamp'' = Some (PStr ''2026-01-01 00:00:15'')) \<and>
   (\<exists>v. snd (execute_task (Inr ()) scalar_session (example_clk 0) ''https://ok.example/a'') = Inr v \<and>
         field v ''status'' = Some (PStr ''FAILED'') \<and>
         field v ''payload'' = None) \<and>
   (\<exists>v. snd (execute_task (Inr ()) (example_net 1) (example_clk 1) ''https://missing.example/b'') = Inr v \<and>
         field v ''status'' = Some (PStr ''HTTP_404'') \<and>
         field v ''payload'' = None \<and>
         field v ''timestamp'' = None)"
proof -
  have a: "example_net 0 ''https://ok.example/a'' = Inr ok_response \<and> status ok_response = 200 \<and>
           json ok_response = Inr (PDict [(''x'', PInt 1), (''y'', PInt 2)]) \<and>
           py_len (PDict [(''x'', PInt 1), (''y'', PInt 2)]) = Inr 2"
    by (simp add: example_net_def ok_response_def)
  have b: "scalar_session ''https://ok.example/a'' = Inr \<lparr>status = 200, json = Inr (PInt 5)\<rparr> \<and>
           status \<lparr>status = 200, json = Inr (PInt 5)\<rparr> = 200 \<and>
           json \<lparr>status = 200, json = Inr (PInt 5)\<rparr> = Inr (PInt 5) \<and>
           py_len (PInt 5) = Inl (no_len ''int'')"
    by (simp add: scalar_session_def)
  have c: "example_net 1 ''https://missing.example/b'' = Inr missing_response \<and>
           status missing_response \<noteq> 200"
    by (simp add: example_net_def missing_response_def)
  have s: "str_int (status missing_response) = ''404''"
    by (simp add: missing_response_def str_int_def digit_char_def)
  from execute_task_status_classification
         [of "example_net 0" "''https://ok.example/a''" ok_response
             "PDict [(''x'', PInt 1), (''y'', PInt 2)]" 2 "example_clk 0"] a
  have 1: "\<exists>v p. snd (execute_task (Inr ()) (example_net 0) (example_clk 0) ''https://ok.example/a'') = Inr v \<and>
         field v ''status'' = Some (PStr ''SUCCESS'') \<and>
         field v ''payload'' = Some p \<and>
         field p ''origin_count'' = Some (PInt 2) \<and>
         field v ''timestamp'' = Some (PStr ''2026-01-01 00:00:15'')"
    by (simp add: example_clk_def)
  from execute_task_status_classification
         [of scalar_session "''https://ok.example/a''" "\<lparr>status = 200, json = Inr (PInt 5)\<rparr>"
             "PInt 5" _ "example_clk 0" "no_len ''int''"] b
  have 2: "\<exists>v. snd (execute_task (Inr ()) scalar_session (example_clk 0) ''https://ok.example/a'') = Inr v \<and>
         field v ''status'' = Some (PStr ''FAILED'') \<and>
         field v ''payload'' = None"
    by simp
  from execute_task_status_classification
         [of "example_net 1" "''https://missing.example/b''" missing_response _ _ "example_clk 1"] c s
  have 3: "\<exists>v. snd (execute_task (Inr ()) (example_net 1) (example_clk 1) ''https://missing.example/b'') = Inr v \<and>
         field v ''status'' = Some (PStr ''HTTP_404'') \<and>
         field v ''payload'' = None \<and>
         field v ''timestamp'' = None"
    by simp
  from 1 2 3 show ?thesis by blast
qed

text \<open>
  C3, as stated, fails for a body that is valid JSON but has no length: the answer 200 with
  the body \<^verbatim>\<open>5\<close> makes \<^verbatim>\<open>len(data)\<close> raise TypeError inside the \<^verbatim>\<open>try\<close>, and the result
  is FAILED, not SUCCESS.
\<close>

theorem execute_task_json_scalar_counterexample:
  "snd (execute_task (Inr ()) scalar_session (example_clk 0) ''https://ok.example/a'') =
     Inr (PDict [(''status'', PStr ''FAILED''), (''url'', PStr ''https://ok.example/a''),
                 (''error'', PStr (exn_str (no_len ''int'')))])"
  by (simp add: execute_task_cases scalar_session_def process_logic_def)

text \<open>
  C4, amended. Once the semaphore has admitted the task, \<^verbatim>\<open>execute_task\<close> never raises:
  whatever the session answers or raises, at the request, at the decoding or at the
  transformation, what comes back is a result dictionary. An exception of the acquire
  itself is handed on to the caller.
\<close>

theorem execute_task_catches:
  "(\<exists>kvs. snd (execute_task (Inr ()) sess clk url) = Inr (PDict kvs)) \<and>
   snd (execute_task (Inl e) sess clk url) = Inl e"
  by (simp add: execute_task_cases execute_task_refused split: sum.splits)

text \<open>
  C4, as stated, fails when the acquire of the semaphore raises: \<^verbatim>\<open>async with\<close> stands
  outside the \<^verbatim>\<open>try\<close>, so the RuntimeError of a semaphore bound to another event loop
  leaves \<^verbatim>\<open>execute_task\<close>, which performs nothing and returns no result.
\<close>

theorem execute_task_refused_acquire_counterexample:
  "execute_task (Inl bound_error) (example_net 2) (example_clk 2) ''https://slow.example/c'' =
     ([], Inl bound_error)"
  by (simp add: execute_task_def with_semaphore_def)

text \<open>
  C6. On every path of an admitted task, the task performs one acquire, first, and one
  release, last; the request and everything else it does lie between the two, and it
  touches the semaphore nowhere else. A task whose acquire raises took no slot and
  performs nothing.
\<close>

theorem execute_task_gate_scope:
  "(\<exists>body. fst (execute_task (Inr ()) sess clk url) = Acquire # body @ [Release] \<and>
          gate_events body = [] \<and> Request url \<in> set body) \<and>
   fst (execute_task (Inl e) sess clk url) = []"
  by (simp add: execute_task_cases execute_task_refused gate_events_def split: sum.splits)

text \<open>
  C7, amended. When the request or the decoding raises, the result has the status FAILED,
  an \<^verbatim>\<open>error\<close> field equal to \<^verbatim>\<open>str(e)\<close> of the exception (so non-empty exactly when the
  exception has a message), no payload and no timestamp.
\<close>

theorem execute_task_failure_result:
  assumes "sess url = Inl e \<or> (sess url = Inr resp \<and> status resp = 200 \<and> json resp = Inl e)"
  shows "\<exists>v. snd (execute_task (Inr ()) sess clk url) = Inr v \<and>
           field v ''status'' = Some (PStr ''FAILED'') \<and>
           field v ''error'' = Some (PStr (exn_str e)) \<and>
           field v ''payload'' = None \<and>
           field v ''timestamp'' = None"
  using assms by (auto simp: execute_task_cases)

text \<open>The timeout of the scenario.\<close>

theorem execute_task_failure_result_witness:
  "(example_net 2 ''https://slow.example/c'' = Inl (Exn ''TimeoutError'' []) \<or>
    (example_net 2 ''https://slow.example/c'' = Inr ok_response \<and> status ok_response = 200 \<and>
     json ok_response = Inl (Exn ''TimeoutError'' []))) \<and>
   (\<exists>v. snd (execute_task (Inr ()) (example_net 2) (example_clk 2) ''https://slow.example/c'') = Inr v \<and>
      field v ''status'' = Some (PStr ''FAILED'') \<and>
      field v ''error'' = Some (PStr []) \<and>
      field v ''payload'' = None \<and>
      field v ''timestamp'' = None)"
proof -
  have h: "example_net 2 ''https://slow.example/c'' = Inl (Exn ''TimeoutError'' []) \<or>
    (example_net 2 ''https://slow.example/c'' = Inr ok_response \<and> status ok_response = 200 \<and>
     json ok_response = Inl (Exn ''TimeoutError'' []))"
    by (simp add: example_net_def)
  from execute_task_failure_result
         [where sess = "example_net 2" and url = "''https://slow.example/c''"
            and e = "Exn ''TimeoutError'' []" and resp = ok_response and clk = "example_clk 2", OF h] h
  show ?thesis by simp
qed

text \<open>
  C7, as stated, fails for an exception without a message: the request that never answers
  raises \<^verbatim>\<open>asyncio.TimeoutError()\<close>, and the reason of the FAILED result is the empty string.
\<close>

theorem execute_task_empty_reason_counterexample:
  "snd (execute_task (Inr ()) (example_net 2) (example_clk 2) ''https://slow.example/c'') =
     Inr (PDict [(''status'', PStr ''FAILED''), (''url'', PStr ''https://slow.example/c''),
                 (''error'', PStr [])])"
  by (simp add: execute_task_cases example_net_def)

text \<open>
  C9. On every path that returns a result, the result of \<^verbatim>\<open>execute_task\<close> carries, under
  \<^verbatim>\<open>url\<close>, the url it was called with; the one path that returns none is the raising
  acquire.
\<close>

theorem execute_task_url_field:
  "(\<exists>v. snd (execute_task (Inr ()) sess clk url) = Inr v \<and> field v ''url'' = Some (PStr url)) \<and>
   snd (execute_task (Inl e) sess clk url) = Inl e"
  by (simp add: execute_task_cases execute_task_refused split: sum.splits)

text \<open>
  C10. The status of a result is \<^verbatim>\<open>SUCCESS\<close>, \<^verbatim>\<open>FAILED\<close>, or \<^verbatim>\<open>HTTP_\<close> followed by the
  status code of the response; a payload or a timestamp is present only under \<^verbatim>\<open>SUCCESS\<close>.
  Every admitted task returns such a result, and the raising acquire returns none.
\<close>

theorem execute_task_status_domain:
  "(\<exists>v. snd (execute_task (Inr ()) sess clk url) = Inr v \<and>
     (field v ''status'' = Some (PStr ''SUCCESS'') \<or>
      field v ''status'' = Some (PStr ''FAILED'') \<or>
      (\<exists>resp. sess url = Inr resp \<and>
         field v ''status'' = Some (PStr (''HTTP_'' @ str_int (status resp))))) \<and>
     (field v ''payload'' \<noteq> None \<or> field v ''timestamp'' \<noteq> None \<longrightarrow>
        field v ''status'' = Some (PStr ''SUCCESS''))) \<and>
   snd (execute_task (Inl e) sess clk url) = Inl e"
  by (simp add: execute_task_cases execute_task_refused split: sum.splits)

text \<open>The 404 of the scenario.\<close>

theorem execute_task_status_domain_witness:
  "\<exists>v. snd (execute_task (Inr ()) (example_net 1) (example_clk 1) ''https://missing.example/b'') = Inr v \<and>
     field v ''status'' = Some (PStr ''HTTP_404'') \<and>
     field v ''payload'' = None \<and> field v ''timestamp'' = None"
proof -
  from execute_task_status_domain [of "example_net 1" "example_clk 1" "''https://missing.example/b''"]
  obtain v where v: "snd (execute_task (Inr ()) (example_net 1) (example_clk 1) ''https://missing.example/b'') = Inr v"
    and imp: "field v ''payload'' \<noteq> None \<or> field v ''timestamp'' \<noteq> None \<longrightarrow>
        field v ''status'' = Some (PStr ''SUCCESS'')"
    by blast
  from v have st: "field v ''status'' = Some (PStr ''HTTP_404'')"
    by (auto simp: execute_task_cases example_net_def missing_response_def str_int_def digit_char_def)
  with imp have "field v ''payload'' = None \<and> field v ''timestamp'' = None" by auto
  with v st show ?thesis by blast
qed

text \<open>
  C8, amended. The constructor hands the limit to \<^verbatim>\<open>asyncio.Semaphore\<close> as it is: a limit
  below 0 is rejected with ValueError, a limit of 0 or more becomes the counter of the
  semaphore unchanged, and the limit is 10 when none is given.
\<close>

theorem DataStreamEngine_limit:
  "(c < 0 \<longrightarrow> DataStreamEngine (Some c) t =
       Inl (Exn ''ValueError'' ''Semaphore initial value must be >= 0'')) \<and>
   (0 \<le> c \<longrightarrow> DataStreamEngine (Some c) t =
       Inr \<lparr>semaphore = nat c, semaphore_loop = None, start_time = t\<rparr>) \<and>
   DataStreamEngine None t = Inr \<lparr>semaphore = 10, semaphore_loop = None, start_time = t\<rparr>"
  by (simp add: DataStreamEngine_def Semaphore_def)

text \<open>The limits -1, 0 and 5 (the one of the demonstration), and the default.\<close>

theorem DataStreamEngine_limit_witness:
  "DataStreamEngine (Some (- 1)) 0 = Inl (Exn ''ValueError'' ''Semaphore initial value must be >= 0'') \<and>
   DataStreamEngine (Some 0) 0 = Inr \<lparr>semaphore = 0, semaphore_loop = None, start_time = 0\<rparr> \<and>
   DataStreamEngine (Some 5) 0 = Inr \<lparr>semaphore = 5, semaphore_loop = None, start_time = 0\<rparr> \<and>
   DataStreamEngine None 0 = Inr \<lparr>semaphore = 10, semaphore_loop = None, start_time = 0\<rparr>"
  using DataStreamEngine_limit [of "- 1" 0] DataStreamEngine_limit [of 0 0]
    DataStreamEngine_limit [of 5 0]
  by simp

text \<open>
  C8, as stated, fails at the limit 0: the constructor neither rejects it nor raises it to
  1, the engine is built with a semaphore whose counter is 0.
\<close>

theorem DataStreamEngine_zero_counterexample:
  "DataStreamEngine (Some 0) 0 = Inr \<lparr>semaphore = 0, semaphore_loop = None, start_time = 0\<rparr>"
  by (simp add: DataStreamEngine_def Semaphore_def)

text \<open>
  C5. For an engine built with the limit \<open>c\<close>, fresh or bound to a loop by an earlier
  run, in every state that any interleaving of the tasks reaches, the tasks past their
  acquire and not yet past their release are at most \<open>c\<close>; this holds for any number of
  targets, more than \<open>c\<close> included.
\<close>

theorem gate_admission_bound:
  assumes "DataStreamEngine (Some c) t = Inr eng"
    and "reach (start (eng\<lparr>semaphore_loop := bound\<rparr>) running net clk target_urls) s"
  shows "int (holders s) \<le> c"
proof -
  from assms(1) have "int (semaphore (eng\<lparr>semaphore_loop := bound\<rparr>)) = c"
    by (auto simp: DataStreamEngine_def Semaphore_def split: if_splits)
  with reach_holders [OF assms(2)] show ?thesis by simp
qed

text \<open>
  The scenario, three targets and the limit 2: after the first two tasks have acquired,
  two tasks hold a slot and the third cannot take its step.
\<close>

theorem gate_admission_bound_witness:
  "DataStreamEngine (Some 2) 0 = Inr example_engine \<and>
   length example_urls > 2 \<and>
   reach (start example_engine 3 example_net example_clk example_urls)
     (advance (advance (start example_engine 3 example_net example_clk example_urls) 0) 1) \<and>
   int (holders (advance (advance (start example_engine 3 example_net example_clk example_urls) 0) 1)) \<le> 2 \<and>
   \<not> enabled (advance (advance (start example_engine 3 example_net example_clk example_urls) 0) 1) 2"
proof -
  let ?s0 = "start example_engine 3 example_net example_clk example_urls"
  have mk: "DataStreamEngine (Some 2) 0 = Inr example_engine"
    by (simp add: DataStreamEngine_def Semaphore_def example_engine_def)
  have same: "example_engine\<lparr>semaphore_loop := None\<rparr> = example_engine"
    by (simp add: example_engine_def)
  have s0: "?s0 = \<lparr>sem_value = 2, sem_loop = None, loop = 3, tasks =
      [spawn (example_net 0) (example_clk 0) ''https://ok.example/a'',
       spawn (example_net (Suc 0)) (example_clk (Suc 0)) ''https://missing.example/b'',
       spawn (example_net (Suc (Suc 0))) (example_clk (Suc (Suc 0))) ''https://slow.example/c'']\<rparr>"
    by (simp add: start_def example_engine_def example_urls_def)
  have e0: "enabled ?s0 0"
    by (simp add: s0 enabled_def spawn_def execute_task_cases example_net_def ok_response_def
        process_logic_def)
  have e1: "enabled (advance ?s0 0) 1"
    by (simp add: s0 enabled_def advance_def spawn_def execute_task_cases example_net_def
        ok_response_def missing_response_def process_logic_def)
  have r: "reach ?s0 (advance (advance ?s0 0) 1)"
    by (rule reach_step [OF reach_step [OF reach_start e0] e1])
  have ne: "\<not> enabled (advance (advance ?s0 0) 1) 2"
    by (simp add: s0 enabled_def advance_def foreign_def spawn_def execute_task_cases example_net_def
        ok_response_def missing_response_def process_logic_def)
  from r have r': "reach (start (example_engine\<lparr>semaphore_loop := None\<rparr>) 3 example_net example_clk example_urls)
     (advance (advance ?s0 0) 1)" by (simp add: same)
  from gate_admission_bound [OF mk r'] mk r ne show ?thesis
    by (simp add: example_urls_def)
qed

text \<open>
  C1, amended. On an engine with at least one slot whose semaphore is bound to no other
  event loop than the running one (or with no more targets than slots, so that no task has
  to wait), and for the empty list of targets on any engine: whatever the policy of the
  loop, so in whatever order the tasks take their steps and complete, \<^verbatim>\<open>run_pipeline\<close>
  returns, and the list it returns holds, position by position, what the task of the
  target at that position returned.
\<close>

theorem run_pipeline_order:
  assumes "0 < semaphore eng \<or> target_urls = []"
    and "semaphore_loop eng = None \<or> semaphore_loop eng = Some running \<or>
         length target_urls \<le> semaphore eng"
  shows "\<exists>results. run_pipeline pick eng running net clk target_urls = Returns results \<and>
           map Inr results =
             map (\<lambda>(i, url). snd (execute_task (Inr ()) (net i) (clk i) url))
               (enumerate 0 target_urls)"
  using run_pipeline_returns [OF assms, of pick net clk] expected_results_map
  by blast

text \<open>
  The scenario, under a policy that lets the last enabled task go first: the three results
  stand in the order of the three targets.
\<close>

theorem run_pipeline_order_witness:
  "(0 < semaphore example_engine \<or> example_urls = []) \<and>
   (semaphore_loop example_engine = None \<or> semaphore_loop example_engine = Some 3 \<or>
    length example_urls \<le> semaphore example_engine) \<and>
   run_pipeline last_enabled example_engine 3 example_net example_clk example_urls =
     Returns
       [PDict [(''status'', PStr ''SUCCESS''), (''url'', PStr ''https://ok.example/a''),
               (''payload'', PDict [(''origin_count'', PInt 2), (''engine_tag'', PStr ''STF-V1-PRO''),
                  (''processed_at'', PStr ''2026-01-01T00:00:15.000250''), (''cleaned'', PBool True)]),
               (''timestamp'', PStr ''2026-01-01 00:00:15'')],
        PDict [(''status'', PStr ''HTTP_404''), (''url'', PStr ''https://missing.example/b'')],
        PDict [(''status'', PStr ''FAILED''), (''url'', PStr ''https://slow.example/c''),
               (''error'', PStr [])]]"
proof -
  have pos: "0 < semaphore example_engine \<or> example_urls = []"
    by (simp add: example_engine_def)
  have unbound: "semaphore_loop example_engine = None \<or> semaphore_loop example_engine = Some 3 \<or>
    length example_urls \<le> semaphore example_engine"
    by (simp add: example_engine_def)
  from run_pipeline_order [OF pos unbound, of last_enabled example_net example_clk]
  obtain results
    where r: "run_pipeline last_enabled example_engine 3 example_net example_clk example_urls =
              Returns results"
      and m: "map Inr results =
              map (\<lambda>(i, url). snd (execute_task (Inr ()) (example_net i) (example_clk i) url))
                (enumerate 0 example_urls)"
    by blast
  from m have "results =
       [PDict [(''status'', PStr ''SUCCESS''), (''url'', PStr ''https://ok.example/a''),
               (''payload'', PDict [(''origin_count'', PInt 2), (''engine_tag'', PStr ''STF-V1-PRO''),
                  (''processed_at'', PStr ''2026-01-01T00:00:15.000250''), (''cleaned'', PBool True)]),
               (''timestamp'', PStr ''2026-01-01 00:00:15'')],
        PDict [(''status'', PStr ''HTTP_404''), (''url'', PStr ''https://missing.example/b'')],
        PDict [(''status'', PStr ''FAILED''), (''url'', PStr ''https://slow.example/c''),
               (''error'', PStr [])]]"
    by (auto simp: example_urls_def example_net_def example_clk_def execute_task_cases
        ok_response_def missing_response_def process_logic_def str_int_def digit_char_def)
  with r pos unbound show ?thesis by simp
qed

text \<open>
  C1, as stated, fails on the engine that the constructor builds for the limit 0: no task
  is ever admitted, and \<^verbatim>\<open>run_pipeline\<close> of the three targets returns nothing.
\<close>

theorem run_pipeline_zero_limit_counterexample:
  "DataStreamEngine (Some 0) 0 = Inr zero_engine \<and>
   run_pipeline last_enabled zero_engine 3 example_net example_clk example_urls = Hangs"
proof -
  have "run_pipeline last_enabled zero_engine 3 example_net example_clk example_urls = Hangs"
    by (rule run_pipeline_hangs) (simp_all add: zero_engine_def example_urls_def)
  then show ?thesis
    by (simp add: DataStreamEngine_def Semaphore_def zero_engine_def)
qed

text \<open>
  C2, amended. Under the same conditions on the engine, \<^verbatim>\<open>run_pipeline\<close> returns as many
  results as there are targets, and the result at each position carries the url of the
  target at that position: one result per target, none twice, none missing. For no targets
  it returns the empty list on any engine.
\<close>

theorem run_pipeline_coverage:
  assumes "0 < semaphore eng \<or> target_urls = []"
    and "semaphore_loop eng = None \<or> semaphore_loop eng = Some running \<or>
         length target_urls \<le> semaphore eng"
  shows "\<exists>results. run_pipeline pick eng running net clk target_urls = Returns results \<and>
           length results = length target_urls \<and>
           (\<forall>i < length target_urls. field (results ! i) ''url'' = Some (PStr (target_urls ! i))) \<and>
           (target_urls = [] \<longrightarrow> results = [])"
proof -
  let ?rs = "expected_results net clk target_urls"
  have "run_pipeline pick eng running net clk target_urls = Returns ?rs"
    using assms by (rule run_pipeline_returns)
  moreover have len: "length ?rs = length target_urls"
    by (simp add: expected_results_def)
  moreover have "\<forall>i < length target_urls. field (?rs ! i) ''url'' = Some (PStr (target_urls ! i))"
    using expected_results_nth execute_task_url by blast
  moreover have "target_urls = [] \<longrightarrow> ?rs = []" using len by auto
  ultimately show ?thesis by blast
qed

text \<open>The scenario, and the empty list of targets with the engine of no slot.\<close>

theorem run_pipeline_coverage_witness:
  "(0 < semaphore example_engine \<or> example_urls = []) \<and>
   (semaphore_loop example_engine = None \<or> semaphore_loop example_engine = Some 3 \<or>
    length example_urls \<le> semaphore example_engine) \<and>
   (\<exists>results. run_pipeline last_enabled example_engine 3 example_net example_clk example_urls =
        Returns results \<and>
      length results = 3 \<and>
      field (results ! 0) ''url'' = Some (PStr ''https://ok.example/a'') \<and>
      field (results ! 1) ''url'' = Some (PStr ''https://missing.example/b'') \<and>
      field (results ! 2) ''url'' = Some (PStr ''https://slow.example/c'')) \<and>
   run_pipeline last_enabled zero_engine 3 example_net example_clk [] = Returns []"
proof -
  have pos: "0 < semaphore example_engine \<or> example_urls = []"
    by (simp add: example_engine_def)
  have unbound: "semaphore_loop example_engine = None \<or> semaphore_loop example_engine = Some 3 \<or>
    length example_urls \<le> semaphore example_engine"
    by (simp add: example_engine_def)
  have e: "0 < semaphore zero_engine \<or> ([] :: string list) = []" by simp
  have u: "semaphore_loop zero_engine = None \<or> semaphore_loop zero_engine = Some 3 \<or>
    length ([] :: string list) \<le> semaphore zero_engine" by simp
  show ?thesis
    using run_pipeline_coverage [OF pos unbound, of last_enabled example_net example_clk]
      run_pipeline_coverage [OF e u, of last_enabled example_net example_clk] pos unbound
    by (auto simp: example_urls_def)
qed

text \<open>
  C2, as stated, fails on an engine used before on another event loop: the first two tasks
  take the two slots, the third has to wait, its acquire raises RuntimeError outside the
  \<^verbatim>\<open>try\<close>, \<^verbatim>\<open>gather\<close> hands the exception on, and \<^verbatim>\<open>run_pipeline\<close> raises it instead of
  returning three results.
\<close>

theorem run_pipeline_reused_engine_counterexample:
  "run_pipeline arrival_order reused_engine 4 example_net example_clk example_urls =
     Raises bound_error"
  by code_simp

end
